theory Spec2Isabelle
  imports Main "HOL-Library.Word"
begin

unbundle bit_operations_syntax

section \<open>Basic types: bytes, fixed-width integers, strings, failures\<close>

type_synonym byte = "8 word"
type_synonym uint16 = "16 word"
type_synonym uint32 = "32 word"

text \<open>
  A Go \<open>string\<close> is a sequence of bytes; it is modelled by \<open>string\<close> (a list of 8-bit
  characters). \<open>[]byte(s)\<close> and \<open>string(bs)\<close> convert element by element.
\<close>

definition byte_of_char :: "char \<Rightarrow> byte" where
  "byte_of_char c = of_nat (of_char c)"

definition char_of_byte :: "byte \<Rightarrow> char" where
  "char_of_byte b = char_of (unat b)"

definition bytes_of_string :: "string \<Rightarrow> byte list" where
  "bytes_of_string s = map byte_of_char s"

definition string_of_bytes :: "byte list \<Rightarrow> string" where
  "string_of_bytes bs = map char_of_byte bs"

text \<open>
  Errors are values. \<open>error\<close> holds the error values the code can return
  (\<open>io.EOF\<close>, \<open>io.ErrUnexpectedEOF\<close>, the \<open>UnreadByte\<close> error of \<open>bytes.Buffer\<close>,
  the package variable \<open>ErrClassNotSupport\<close>, and \<open>errors.WithMessage\<close> wrapping).
  A run-time panic (index out of range) is not an error value: it aborts the call. A call
  therefore ends in \<open>Inr v\<close>, in \<open>Inl (Returned e)\<close> or in \<open>Inl Panic\<close>.
\<close>

datatype error =
    EOF
  | ErrUnexpectedEOF
  | ErrUnreadByte
  | ErrClassNotSupport
  | WithMessage error string

datatype failure = Panic | Returned error

section \<open>The library functions the code calls\<close>

subsection \<open>\<open>bytes.Buffer\<close>\<close>

datatype readOp = opInvalid | opRead

record Buffer =
  buf :: "byte list"
  off :: nat
  lastRead :: readOp

definition NewBuffer :: "byte list \<Rightarrow> Buffer" where
  "NewBuffer bs = \<lparr>buf = bs, off = 0, lastRead = opInvalid\<rparr>"

definition unread :: "Buffer \<Rightarrow> byte list" where
  "unread b = drop (off b) (buf b)"

definition Len :: "Buffer \<Rightarrow> nat" where
  "Len b = length (buf b) - off b"

text \<open>\<open>b.Next(n)\<close>: the next \<open>n\<close> bytes, or all that is left when fewer remain.\<close>

definition Next :: "Buffer \<Rightarrow> nat \<Rightarrow> byte list \<times> Buffer" where
  "Next b n =
     (let m = Len b;
          n' = (if n > m then m else n);
          data = take n' (drop (off b) (buf b))
      in (data, b\<lparr>off := off b + n', lastRead := (if n' > 0 then opRead else opInvalid)\<rparr>))"

definition UnreadByte :: "Buffer \<Rightarrow> error + Buffer" where
  "UnreadByte b =
     (if lastRead b = opInvalid then Inl ErrUnreadByte
      else Inr (b\<lparr>lastRead := opInvalid, off := (if off b > 0 then off b - 1 else off b)\<rparr>))"

text \<open>
  \<open>b.Read(p)\<close> with \<open>len(p) = n\<close>: an empty buffer is reset and gives \<open>io.EOF\<close>
  (nothing when \<open>n = 0\<close>); otherwise up to \<open>n\<close> bytes are copied out.
\<close>

definition Read :: "Buffer \<Rightarrow> nat \<Rightarrow> error + (byte list \<times> Buffer)" where
  "Read b n =
     (if Len b = 0 then
        (let b' = \<lparr>buf = [], off = 0, lastRead = opInvalid\<rparr>
         in if n = 0 then Inr ([], b') else Inl EOF)
      else
        (let data = take n (drop (off b) (buf b))
         in Inr (data, b\<lparr>off := off b + length data,
                         lastRead := (if length data > 0 then opRead else opInvalid)\<rparr>)))"

text \<open>
  \<open>io.ReadFull(b, p)\<close> with \<open>len(p) = n\<close>. On a \<open>bytes.Buffer\<close> the first \<open>Read\<close>
  delivers everything available up to \<open>n\<close>; when that is short, the second \<open>Read\<close> finds the
  buffer empty, so the result is \<open>io.EOF\<close> when nothing was read and
  \<open>io.ErrUnexpectedEOF\<close> otherwise.
\<close>

definition ReadFull :: "Buffer \<Rightarrow> nat \<Rightarrow> error + (byte list \<times> Buffer)" where
  "ReadFull b n =
     (if n = 0 then Inr ([], b)
      else (case Read b n of
              Inl e \<Rightarrow> Inl e
            | Inr (data, b') \<Rightarrow>
                if length data \<ge> n then Inr (data, b')
                else (case Read b' (n - length data) of
                        Inl e \<Rightarrow> Inl ErrUnexpectedEOF
                      | Inr (data', b'') \<Rightarrow> Inr (data @ data', b''))))"

subsection \<open>\<open>encoding/binary\<close>, big endian\<close>

text \<open>
  \<open>binary.BigEndian.Uint16(b)\<close> and \<open>Uint32(b)\<close> index \<open>b[1]\<close> and \<open>b[3]\<close> first, so
  a slice that is too short panics.
\<close>

definition Uint16 :: "byte list \<Rightarrow> failure + uint16" where
  "Uint16 b = (if length b < 2 then Inl Panic
               else Inr (ucast (b ! 1) OR push_bit 8 (ucast (b ! 0))))"

definition Uint32 :: "byte list \<Rightarrow> failure + uint32" where
  "Uint32 b = (if length b < 4 then Inl Panic
               else Inr (ucast (b ! 3) OR push_bit 8 (ucast (b ! 2))
                         OR push_bit 16 (ucast (b ! 1)) OR push_bit 24 (ucast (b ! 0))))"

text \<open>
  \<open>binary.Write(&buffer, binary.BigEndian, v)\<close> into a \<open>bytes.Buffer\<close> cannot fail for
  the fixed-size values written here, so the writes are modelled by the bytes they append and
  the \<open>err != nil\<close> branches after them do not appear.
\<close>

definition PutUint16 :: "uint16 \<Rightarrow> byte list" where
  "PutUint16 v = [ucast (drop_bit 8 v), ucast v]"

definition PutUint32 :: "uint32 \<Rightarrow> byte list" where
  "PutUint32 v = [ucast (drop_bit 24 v), ucast (drop_bit 16 v), ucast (drop_bit 8 v), ucast v]"

text \<open>
  \<open>binary.Read(buffer, binary.BigEndian, &x)\<close> for a \<open>uint8\<close> and for a byte slice of
  length \<open>n\<close>: \<open>io.ReadFull\<close> of the size of the value, whose error is returned as it is.
\<close>

definition binary_Read_uint8 :: "Buffer \<Rightarrow> error + (byte \<times> Buffer)" where
  "binary_Read_uint8 b =
     (case ReadFull b 1 of
        Inl e \<Rightarrow> Inl e
      | Inr (data, b') \<Rightarrow> Inr (data ! 0, b'))"

definition binary_Read_bytes :: "Buffer \<Rightarrow> nat \<Rightarrow> error + (byte list \<times> Buffer)" where
  "binary_Read_bytes b n = ReadFull b n"

subsection \<open>\<open>strings.Split(s, \".\")\<close> and \<open>strings.Join(a, \".\")\<close>\<close>

fun strings_Split :: "string \<Rightarrow> string list" where
  "strings_Split [] = [[]]"
| "strings_Split (c # cs) =
     (if c = CHR ''.'' then [] # strings_Split cs
      else (case strings_Split cs of
              [] \<Rightarrow> [[c]]
            | seg # segs \<Rightarrow> (c # seg) # segs))"

fun strings_Join :: "string list \<Rightarrow> string" where
  "strings_Join [] = []"
| "strings_Join [seg] = seg"
| "strings_Join (seg # segs) = seg @ ''.'' @ strings_Join segs"

subsection \<open>\<open>net.ParseIP\<close>, \<open>IP.To4\<close>, \<open>net.IPv4\<close> and \<open>IP.String\<close>\<close>

text \<open>
  The textual form of an IPv4 address that \<open>net.ParseIP\<close> accepts: exactly four fields
  separated by dots, each a non-empty run of decimal digits without a leading zero and with a
  value of at most 255.
\<close>

definition isDigit :: "char \<Rightarrow> bool" where
  "isDigit c = ((of_char CHR ''0'' :: nat) \<le> of_char c \<and> (of_char c :: nat) \<le> of_char CHR ''9'')"

definition digitVal :: "char \<Rightarrow> nat" where
  "digitVal c = of_char c - of_char CHR ''0''"

fun dtoi :: "nat \<Rightarrow> string \<Rightarrow> nat" where
  "dtoi acc [] = acc"
| "dtoi acc (c # cs) = dtoi (acc * 10 + digitVal c) cs"

definition validField :: "string \<Rightarrow> bool" where
  "validField f =
     (f \<noteq> [] \<and> list_all isDigit f \<and> (length f > 1 \<longrightarrow> hd f \<noteq> CHR ''0'') \<and> dtoi 0 f \<le> 255)"

definition parseIPv4 :: "string \<Rightarrow> byte list option" where
  "parseIPv4 s =
     (let fields = strings_Split s
      in if length fields = 4 \<and> list_all validField fields
         then Some (map (\<lambda>f. of_nat (dtoi 0 f)) fields)
         else None)"

definition v4InV6Prefix :: "byte list" where
  "v4InV6Prefix = [0, 0, 0, 0, 0, 0, 0, 0, 0, 0, 0xff, 0xff]"

text \<open>
  \<open>net.ParseIP(s)\<close> looks for the first \<open>.\<close> or \<open>:\<close> of \<open>s\<close>: a dot sends the string
  to the IPv4 parser, whose result is stored in the 16-byte form; a colon sends it to the IPv6
  parser; a string with neither is not an address and gives \<open>nil\<close> (here \<open>[]\<close>). The IPv6
  parser is not modelled: it is the parameter \<open>parseIPv6\<close>.
\<close>

fun ParseIP_scan :: "(string \<Rightarrow> byte list) \<Rightarrow> string \<Rightarrow> string \<Rightarrow> byte list" where
  "ParseIP_scan parseIPv6 s [] = []"
| "ParseIP_scan parseIPv6 s (c # cs) =
     (if c = CHR ''.'' then (case parseIPv4 s of None \<Rightarrow> [] | Some ip4 \<Rightarrow> v4InV6Prefix @ ip4)
      else if c = CHR '':'' then parseIPv6 s
      else ParseIP_scan parseIPv6 s cs)"

definition ParseIP :: "(string \<Rightarrow> byte list) \<Rightarrow> string \<Rightarrow> byte list" where
  "ParseIP parseIPv6 s = ParseIP_scan parseIPv6 s s"

definition To4 :: "byte list \<Rightarrow> byte list" where
  "To4 ip =
     (if length ip = 4 then ip
      else if length ip = 16 \<and> list_all (\<lambda>x. x = 0) (take 10 ip) \<and> ip ! 10 = 0xff \<and> ip ! 11 = 0xff
      then take 4 (drop 12 ip)
      else [])"

text \<open>Decimal text of a number, as \<open>IP.String\<close> prints each byte.\<close>

definition digitChar :: "nat \<Rightarrow> char" where
  "digitChar d = char_of (of_char CHR ''0'' + d)"

definition itoa :: "nat \<Rightarrow> string" where
  "itoa n =
     (if n < 10 then [digitChar n]
      else if n < 100 then [digitChar (n div 10), digitChar (n mod 10)]
      else [digitChar (n div 100), digitChar ((n div 10) mod 10), digitChar (n mod 10)])"

text \<open>\<open>net.IPv4(a, b, c, d).String()\<close>: the dotted-quad text of the four bytes.\<close>

definition IPv4_String :: "byte \<Rightarrow> byte \<Rightarrow> byte \<Rightarrow> byte \<Rightarrow> string" where
  "IPv4_String a b c d =
     itoa (unat a) @ ''.'' @ itoa (unat b) @ ''.'' @ itoa (unat c) @ ''.'' @ itoa (unat d)"

section \<open>dns.go: the message and its encoding\<close>

record DNSFlags =
  QR :: uint16
  OpCode :: uint16
  AA :: uint16
  TC :: uint16
  RD :: uint16
  RA :: uint16
  Z :: uint16
  RCode :: uint16

record DNSHeader =
  TxID :: uint16
  Flags :: DNSFlags
  Questions :: uint16
  AnswerRRs :: uint16
  AuthorityRRs :: uint16
  AdditionalRRs :: uint16

record DNSQuestion =
  QuestionName :: string
  QuestionType :: uint16
  QuestionClass :: uint16

record DNSResourceRecode =
  Name :: string
  NamePos :: uint16
  RRType :: uint16
  Class :: uint16
  TTL :: uint32
  RDLength :: uint16
  RData :: string

record DNSMessage =
  Header :: DNSHeader
  MsgQuestions :: "DNSQuestion list"
  ResourceRecodes :: "DNSResourceRecode list"

definition DNSTypeA :: uint16 where "DNSTypeA = 1"
definition DNSTypeNS :: uint16 where "DNSTypeNS = 2"
definition DNSTypeCName :: uint16 where "DNSTypeCName = 5"
definition DNSTypeAAAA :: uint16 where "DNSTypeAAAA = 28"
definition DNSClassIn :: uint16 where "DNSClassIn = 1"

text \<open>\<open>DNSFlags.ToBit\<close>: shifts bind tighter than \<open>+\<close>; all arithmetic is on \<open>uint16\<close>.\<close>

definition ToBit :: "DNSFlags \<Rightarrow> uint16" where
  "ToBit f = push_bit 15 (QR f) + push_bit 11 (OpCode f) + push_bit 10 (AA f)
             + push_bit 9 (TC f) + push_bit 8 (RD f) + push_bit 7 (RA f) + RCode f"

definition DNSHeader_ToByte :: "DNSHeader \<Rightarrow> failure + byte list" where
  "DNSHeader_ToByte h =
     Inr (concat (map PutUint16
            [TxID h, ToBit (Flags h), Questions h, AnswerRRs h, AuthorityRRs h, AdditionalRRs h]))"

text \<open>
  The label-writing loop shared by \<open>DNSQuestion.ToByte\<close> and \<open>DNSResourceRecode.ToByte\<close>:
  for every segment of \<open>strings.Split(name, \".\")\<close> the byte \<open>byte(len(seg))\<close> (the length
  modulo 256) and the segment's bytes.
\<close>

fun write_segments :: "string list \<Rightarrow> byte list" where
  "write_segments [] = []"
| "write_segments (seg # segs) =
     (of_nat (length seg) # bytes_of_string seg) @ write_segments segs"

definition write_name :: "string \<Rightarrow> byte list" where
  "write_name name = write_segments (strings_Split name) @ [0x00]"

definition DNSQuestion_ToByte :: "DNSQuestion \<Rightarrow> failure + byte list" where
  "DNSQuestion_ToByte q =
     Inr (write_name (QuestionName q) @ PutUint16 (QuestionType q) @ PutUint16 (QuestionClass q))"

definition DNSResourceRecode_ToByte ::
  "(string \<Rightarrow> byte list) \<Rightarrow> DNSResourceRecode \<Rightarrow> failure + byte list" where
  "DNSResourceRecode_ToByte parseIPv6 r =
     (let buffer0 = (if NamePos r > 0 then PutUint16 (push_bit 15 1 OR push_bit 14 1 OR NamePos r)
                     else []);
          buffer1 = buffer0 @ (if NamePos r \<le> 0 then write_name (Name r) else []);
          buffer2 = buffer1 @ PutUint16 (RRType r) @ PutUint16 (Class r) @ PutUint32 (TTL r)
                    @ PutUint16 (RDLength r)
      in if Class r = DNSClassIn
         then Inr (buffer2 @ To4 (ParseIP parseIPv6 (RData r)))
         else Inl (Returned ErrClassNotSupport))"

text \<open>
  \<open>DNSMessage.ToByte\<close>: the header, then \<open>Questions[i]\<close> for \<open>i\<close> below the header's
  count (indexing past the end of the slice panics), then every resource record. An error of
  a part is returned wrapped in a message.
\<close>

fun write_questions :: "DNSQuestion list \<Rightarrow> nat \<Rightarrow> nat \<Rightarrow> failure + byte list" where
  "write_questions qs i 0 = Inr []"
| "write_questions qs i (Suc k) =
     (if i \<ge> length qs then Inl Panic
      else (case DNSQuestion_ToByte (qs ! i) of
              Inl Panic \<Rightarrow> Inl Panic
            | Inl (Returned err) \<Rightarrow> Inl (Returned (WithMessage err ''write question error''))
            | Inr question \<Rightarrow>
                (case write_questions qs (Suc i) k of
                   Inl f \<Rightarrow> Inl f
                 | Inr rest \<Rightarrow> Inr (question @ rest))))"

fun write_recodes :: "(string \<Rightarrow> byte list) \<Rightarrow> DNSResourceRecode list \<Rightarrow> failure + byte list" where
  "write_recodes parseIPv6 [] = Inr []"
| "write_recodes parseIPv6 (recode # recodes) =
     (case DNSResourceRecode_ToByte parseIPv6 recode of
        Inl Panic \<Rightarrow> Inl Panic
      | Inl (Returned err) \<Rightarrow> Inl (Returned (WithMessage err ''write resource error''))
      | Inr toByte \<Rightarrow>
          (case write_recodes parseIPv6 recodes of
             Inl f \<Rightarrow> Inl f
           | Inr rest \<Rightarrow> Inr (toByte @ rest)))"

definition DNSMessage_ToByte :: "(string \<Rightarrow> byte list) \<Rightarrow> DNSMessage \<Rightarrow> failure + byte list" where
  "DNSMessage_ToByte parseIPv6 d =
     (case DNSHeader_ToByte (Header d) of
        Inl Panic \<Rightarrow> Inl Panic
      | Inl (Returned err) \<Rightarrow> Inl (Returned (WithMessage err ''get header error''))
      | Inr header \<Rightarrow>
          (case write_questions (MsgQuestions d) 0 (unat (Questions (Header d))) of
             Inl f \<Rightarrow> Inl f
           | Inr questions \<Rightarrow>
               (case write_recodes parseIPv6 (ResourceRecodes d) of
                  Inl f \<Rightarrow> Inl f
                | Inr recodes \<Rightarrow> Inr (header @ questions @ recodes))))"

text \<open>The message \<open>LookUp\<close> builds for a host; fields it does not set are zero.\<close>

definition LookUp_msg :: "string \<Rightarrow> DNSMessage" where
  "LookUp_msg host =
     \<lparr>Header = \<lparr>TxID = 1,
                Flags = \<lparr>QR = 0, OpCode = 0, AA = 0, TC = 0, RD = 1, RA = 0, Z = 0, RCode = 0\<rparr>,
                Questions = 1, AnswerRRs = 0, AuthorityRRs = 0, AdditionalRRs = 0\<rparr>,
      MsgQuestions = [\<lparr>QuestionName = host, QuestionType = DNSTypeA, QuestionClass = DNSClassIn\<rparr>],
      ResourceRecodes = []\<rparr>"

section \<open>dnsunmarshal.go: decoding\<close>

text \<open>
  \<open>binary.BigEndian.Uint16(buffer.Next(2))\<close>, \<open>binary.BigEndian.Uint32(buffer.Next(4))\<close>
  and \<open>buffer.Next(1)[0]\<close>: each takes what \<open>Next\<close> delivers and panics when that is
  too short.
\<close>

definition Next_Uint16 :: "Buffer \<Rightarrow> failure + (uint16 \<times> Buffer)" where
  "Next_Uint16 b =
     (let (data, b') = Next b 2
      in case Uint16 data of Inl f \<Rightarrow> Inl f | Inr v \<Rightarrow> Inr (v, b'))"

definition Next_Uint32 :: "Buffer \<Rightarrow> failure + (uint32 \<times> Buffer)" where
  "Next_Uint32 b =
     (let (data, b') = Next b 4
      in case Uint32 data of Inl f \<Rightarrow> Inl f | Inr v \<Rightarrow> Inr (v, b'))"

definition Next_byte :: "Buffer \<Rightarrow> failure + (byte \<times> Buffer)" where
  "Next_byte b =
     (let (data, b') = Next b 1
      in if length data = 0 then Inl Panic else Inr (data ! 0, b'))"

text \<open>The flag fields as the struct literal of \<open>NewDNSHeader\<close> computes them.\<close>

definition unpack_flags :: "uint16 \<Rightarrow> DNSFlags" where
  "unpack_flags flag =
     \<lparr>QR = drop_bit 15 flag,
      OpCode = drop_bit 11 flag mod push_bit 4 1,
      AA = drop_bit 10 flag mod push_bit 1 1,
      TC = drop_bit 9 flag mod push_bit 1 1,
      RD = drop_bit 8 flag mod push_bit 1 1,
      RA = drop_bit 7 flag mod push_bit 1 1,
      Z = drop_bit 4 flag mod push_bit 3 1,
      RCode = flag mod push_bit 4 1\<rparr>"

definition NewDNSHeader :: "Buffer \<Rightarrow> failure + (DNSHeader \<times> Buffer)" where
  "NewDNSHeader buffer =
     (case Next_Uint16 buffer of Inl f \<Rightarrow> Inl f | Inr (txid, buffer1) \<Rightarrow>
     (case Next_Uint16 buffer1 of Inl f \<Rightarrow> Inl f | Inr (flag, buffer2) \<Rightarrow>
     (case Next_Uint16 buffer2 of Inl f \<Rightarrow> Inl f | Inr (questions, buffer3) \<Rightarrow>
     (case Next_Uint16 buffer3 of Inl f \<Rightarrow> Inl f | Inr (answerRRs, buffer4) \<Rightarrow>
     (case Next_Uint16 buffer4 of Inl f \<Rightarrow> Inl f | Inr (authorityRRs, buffer5) \<Rightarrow>
     (case Next_Uint16 buffer5 of Inl f \<Rightarrow> Inl f | Inr (additionalRRs, buffer6) \<Rightarrow>
        Inr (\<lparr>TxID = txid, Flags = unpack_flags flag, Questions = questions,
              AnswerRRs = answerRRs, AuthorityRRs = authorityRRs,
              AdditionalRRs = additionalRRs\<rparr>, buffer6)))))))"

text \<open>
  The label-reading loop of \<open>NewDNSQuestion\<close>: while the length byte is positive, read that
  many bytes as a segment and then the next length byte. Every round consumes at least two
  bytes of a finite buffer, so the loop ends.
\<close>

function read_segments ::
  "Buffer \<Rightarrow> byte \<Rightarrow> string list \<Rightarrow> failure + (string list \<times> Buffer)" where
  "read_segments buffer len segments =
     (if len > 0 then
        (case binary_Read_bytes buffer (unat len) of
           Inl err \<Rightarrow> Inl (Returned (WithMessage err ''read seg''))
         | Inr (seg, buffer1) \<Rightarrow>
             (case binary_Read_uint8 buffer1 of
                Inl err \<Rightarrow> Inl (Returned (WithMessage err ''read length''))
              | Inr (len', buffer2) \<Rightarrow>
                  read_segments buffer2 len' (segments @ [string_of_bytes seg])))
      else Inr (segments, buffer))"
  by pat_completeness auto
termination
  by (relation "measure (\<lambda>(buffer, len, segments). Len buffer)")
     (auto simp: binary_Read_bytes_def binary_Read_uint8_def ReadFull_def Read_def Len_def
           Let_def unat_gt_0 split: if_splits sum.splits prod.splits)

definition NewDNSQuestion :: "Buffer \<Rightarrow> failure + (DNSQuestion \<times> Buffer)" where
  "NewDNSQuestion buffer =
     (case binary_Read_uint8 buffer of
        Inl err \<Rightarrow> Inl (Returned (WithMessage err ''read length''))
      | Inr (len, buffer1) \<Rightarrow>
     (case read_segments buffer1 len [] of Inl f \<Rightarrow> Inl f | Inr (segments, buffer2) \<Rightarrow>
     (case Next_Uint16 buffer2 of Inl f \<Rightarrow> Inl f | Inr (questionType, buffer3) \<Rightarrow>
     (case Next_Uint16 buffer3 of Inl f \<Rightarrow> Inl f | Inr (questionClass, buffer4) \<Rightarrow>
        Inr (\<lparr>QuestionName = strings_Join segments, QuestionType = questionType,
              QuestionClass = questionClass\<rparr>, buffer4)))))"

text \<open>
  \<open>NewDNSResourceRecode\<close>: the top two bits of the first byte are looked at and the byte is
  put back; only for the tag 3 are two bytes read as a pointer. The four fixed fields follow.
  For type 1 with length 4 the four bytes of the address are read one by one; otherwise
  \<open>RDLength\<close> bytes (or what is left) are skipped and only printed. The record starts with
  all fields zero, and \<open>Name\<close> is never assigned. \<open>read_NamePos\<close> is the
  \<open>if tag == 3\<close> statement and \<open>read_RData\<close> the final \<open>if\<close>/\<open>else\<close>.
\<close>

definition read_RData ::
  "DNSResourceRecode \<Rightarrow> Buffer \<Rightarrow> failure + (DNSResourceRecode \<times> Buffer)" where
  "read_RData r buffer =
     (if RRType r = 1 \<and> RDLength r = 4 then
        (case Next_byte buffer of Inl f \<Rightarrow> Inl f | Inr (a, buffer1) \<Rightarrow>
        (case Next_byte buffer1 of Inl f \<Rightarrow> Inl f | Inr (b, buffer2) \<Rightarrow>
        (case Next_byte buffer2 of Inl f \<Rightarrow> Inl f | Inr (c, buffer3) \<Rightarrow>
        (case Next_byte buffer3 of Inl f \<Rightarrow> Inl f | Inr (d, buffer4) \<Rightarrow>
           Inr (r\<lparr>RData := IPv4_String a b c d\<rparr>, buffer4)))))
      else Inr (r, snd (Next buffer (unat (RDLength r)))))"

definition read_NamePos :: "byte \<Rightarrow> Buffer \<Rightarrow> failure + (uint16 \<times> Buffer)" where
  "read_NamePos tag buffer =
     (if tag = 3
      then (case Next_Uint16 buffer of
              Inl f \<Rightarrow> Inl f
            | Inr (v, buffer1) \<Rightarrow> Inr (drop_bit 2 (push_bit 2 v), buffer1))
      else Inr (0, buffer))"

definition NewDNSResourceRecode :: "Buffer \<Rightarrow> failure + (DNSResourceRecode \<times> Buffer)" where
  "NewDNSResourceRecode buffer =
     (case Next_byte buffer of Inl f \<Rightarrow> Inl f | Inr (first, buffer0) \<Rightarrow>
     (case UnreadByte buffer0 of Inl err \<Rightarrow> Inl (Returned err) | Inr buffer1 \<Rightarrow>
     (case read_NamePos (drop_bit 6 first) buffer1 of Inl f \<Rightarrow> Inl f | Inr (namePos, buffer2) \<Rightarrow>
     (case Next_Uint16 buffer2 of Inl f \<Rightarrow> Inl f | Inr (rrType, buffer3) \<Rightarrow>
     (case Next_Uint16 buffer3 of Inl f \<Rightarrow> Inl f | Inr (class, buffer4) \<Rightarrow>
     (case Next_Uint32 buffer4 of Inl f \<Rightarrow> Inl f | Inr (ttl, buffer5) \<Rightarrow>
     (case Next_Uint16 buffer5 of Inl f \<Rightarrow> Inl f | Inr (rdLength, buffer6) \<Rightarrow>
        read_RData \<lparr>Name = [], NamePos = namePos, RRType = rrType, Class = class, TTL = ttl,
                    RDLength = rdLength, RData = []\<rparr> buffer6)))))))"

section \<open>Facts about the library functions\<close>

subsection \<open>The buffer and the big-endian reads\<close>

lemma unread_NewBuffer: "unread (NewBuffer bs) = bs"
  by (simp add: unread_def NewBuffer_def)

lemma Len_unread: "Len b = length (unread b)"
  by (simp add: Len_def unread_def)

lemma Next_fst: "fst (Next b n) = take n (unread b)"
  by (simp add: Next_def Let_def Len_def unread_def)

lemma Next_snd: "unread (snd (Next b n)) = drop n (unread b)"
  by (simp add: Next_def Let_def Len_def unread_def add.commute)

lemma Uint16_PutUint16: "Uint16 (PutUint16 v) = Inr v"
proof -
  have "ucast (ucast v :: byte) OR push_bit 8 (ucast (ucast (drop_bit 8 v) :: byte)) = v"
    by (rule bit_word_eqI) (auto simp: bit_simps)
  then show ?thesis by (simp add: Uint16_def PutUint16_def)
qed


lemma Next_Uint16_short: "length (unread b) < 2 \<Longrightarrow> Next_Uint16 b = Inl Panic"
  using Next_fst [of b 2] by (auto simp: Next_Uint16_def Uint16_def split: prod.splits)

lemma Next_Uint16_ok:
  assumes "unread b = x # y # rest"
  shows "\<exists>b'. Next_Uint16 b = Inr (ucast y OR push_bit 8 (ucast x), b') \<and> unread b' = rest"
  using assms Next_fst [of b 2] Next_snd [of b 2]
  by (auto simp: Next_Uint16_def Uint16_def split: prod.splits)

lemma Next_Uint16_Put:
  assumes "unread b = PutUint16 v @ rest"
  shows "\<exists>b'. Next_Uint16 b = Inr (v, b') \<and> unread b' = rest"
  using assms Next_fst [of b 2] Next_snd [of b 2] Uint16_PutUint16 [of v]
  by (auto simp: Next_Uint16_def PutUint16_def split: prod.splits)

lemma Next_Uint32_short: "length (unread b) < 4 \<Longrightarrow> Next_Uint32 b = Inl Panic"
  using Next_fst [of b 4] by (auto simp: Next_Uint32_def Uint32_def split: prod.splits)


lemma Next_byte_empty: "unread b = [] \<Longrightarrow> Next_byte b = Inl Panic"
  using Next_fst [of b 1] by (auto simp: Next_byte_def split: prod.splits)

lemma Next_byte_ok:
  assumes "unread b = x # rest"
  shows "\<exists>b'. Next_byte b = Inr (x, b') \<and> unread b' = rest"
  using assms Next_fst [of b 1] Next_snd [of b 1]
  by (auto simp: Next_byte_def split: prod.splits)

lemma Next_byte_UnreadByte:
  assumes "unread b = x # rest"
  shows "\<exists>b' b''. Next_byte b = Inr (x, b') \<and> UnreadByte b' = Inr b'' \<and> unread b'' = x # rest"
proof -
  from assms have lt: "off b < length (buf b)"
    by (auto simp: unread_def intro: ccontr)
  then have "Next b 1 = (take 1 (drop (off b) (buf b)), b\<lparr>off := off b + 1, lastRead := opRead\<rparr>)"
    by (simp add: Next_def Let_def Len_def)
  moreover have "take 1 (drop (off b) (buf b)) = [x]"
    using assms by (simp add: unread_def)
  ultimately have "Next_byte b = Inr (x, b\<lparr>off := off b + 1, lastRead := opRead\<rparr>)"
    by (simp add: Next_byte_def)
  moreover have "UnreadByte (b\<lparr>off := off b + 1, lastRead := opRead\<rparr>)
                 = Inr (b\<lparr>off := off b, lastRead := opInvalid\<rparr>)"
    by (simp add: UnreadByte_def)
  moreover have "unread (b\<lparr>off := off b, lastRead := opInvalid\<rparr>) = x # rest"
    using assms by (simp add: unread_def)
  ultimately show ?thesis by blast
qed

lemma ReadFull_ok:
  assumes "0 < n" "n \<le> length (unread b)"
  shows "\<exists>b'. ReadFull b n = Inr (take n (unread b), b') \<and> unread b' = drop n (unread b)"
  using assms by (auto simp: ReadFull_def Read_def Len_def unread_def Let_def add.commute)

lemma ReadFull_EOF:
  assumes "0 < n" "unread b = []"
  shows "ReadFull b n = Inl EOF"
  using assms by (auto simp: ReadFull_def Read_def Len_def unread_def Let_def add.commute)

lemma ReadFull_UnexpectedEOF:
  assumes "unread b \<noteq> []" "length (unread b) < n"
  shows "ReadFull b n = Inl ErrUnexpectedEOF"
  using assms by (auto simp: ReadFull_def Read_def Len_def unread_def Let_def add.commute)

lemma binary_Read_uint8_ok:
  assumes "unread b = x # rest"
  shows "\<exists>b'. binary_Read_uint8 b = Inr (x, b') \<and> unread b' = rest"
  using assms ReadFull_ok [of 1 b] by (auto simp: binary_Read_uint8_def)

lemma binary_Read_uint8_EOF: "unread b = [] \<Longrightarrow> binary_Read_uint8 b = Inl EOF"
  using ReadFull_EOF [of 1 b] by (simp add: binary_Read_uint8_def)

section \<open>The flag word\<close>

lemma and_const_add:
  fixes v :: uint16
  assumes "c1 AND c2 = 0"
  shows "(v AND c1) + (v AND c2) = v AND (c1 OR c2)"
proof -
  have "(v AND c1) AND (v AND c2) = v AND (c1 AND c2)"
    by (simp add: and.assoc and.left_commute)
  then have "(v AND c1) AND (v AND c2) = 0" using assms by simp
  then have "(v AND c1) + (v AND c2) = (v AND c1) OR (v AND c2)"
    by (rule disjunctive_add_eq_or)
  then show ?thesis by (simp add: bit.conj_disj_distrib)
qed

lemma mod_push_bit_as_mask:
  fixes x :: uint16
  shows "x mod push_bit j 1 = x AND mask j"
  by (simp add: take_bit_eq_mod [symmetric] push_bit_eq_mult take_bit_eq_mask)

lemma slice_as_mask:
  fixes v :: uint16
  shows "push_bit k (drop_bit k v AND mask j) = v AND push_bit k (mask j)"
  by (rule bit_word_eqI) (auto simp: bit_simps)

lemma top_as_mask:
  fixes v :: uint16
  shows "push_bit k (drop_bit k v) = v AND push_bit k (mask (16 - k))"
  by (rule bit_word_eqI) (auto simp: bit_simps)

lemma field_without_slice:
  fixes v :: uint16
  assumes "k + j \<le> a \<or> a + b \<le> k"
  shows "drop_bit k (v AND NOT (push_bit a (mask b))) AND mask j = drop_bit k v AND mask j"
  using assms by - (rule bit_word_eqI, auto simp: bit_simps dest: bit_imp_le_length)

lemma top_without_slice:
  fixes v :: uint16
  assumes "a + b \<le> k"
  shows "drop_bit k (v AND NOT (push_bit a (mask b))) = drop_bit k v"
  using assms by - (rule bit_word_eqI, auto simp: bit_simps dest: bit_imp_le_length)

lemma slice_cleared:
  fixes v :: uint16
  shows "drop_bit a (v AND NOT (push_bit a (mask b))) AND mask b = 0"
  by (rule bit_word_eqI) (auto simp: bit_simps)

lemma unpack_flags_masks:
  "unpack_flags v =
     \<lparr>QR = drop_bit 15 v, OpCode = drop_bit 11 v AND mask 4, AA = drop_bit 10 v AND mask 1,
      TC = drop_bit 9 v AND mask 1, RD = drop_bit 8 v AND mask 1, RA = drop_bit 7 v AND mask 1,
      Z = drop_bit 4 v AND mask 3, RCode = drop_bit 0 v AND mask 4\<rparr>"
  by (simp only: unpack_flags_def mod_push_bit_as_mask drop_bit_0 id_apply)

lemma ToBit_unpack_flags: "ToBit (unpack_flags v) = v AND NOT (push_bit 4 (mask 3))"
proof -
  have "ToBit (unpack_flags v) =
        (v AND push_bit 15 (mask 1)) + (v AND push_bit 11 (mask 4)) + (v AND push_bit 10 (mask 1))
        + (v AND push_bit 9 (mask 1)) + (v AND push_bit 8 (mask 1))
        + (v AND push_bit 7 (mask 1)) + (v AND push_bit 0 (mask 4))"
    using top_as_mask [of 15 v]
    by (simp only: ToBit_def unpack_flags_masks DNSFlags.simps slice_as_mask) simp
  also have "\<dots> = v AND 0xFF8F"
    by (simp add: and_const_add mask_eq_exp_minus_1)
  also have "(0xFF8F :: uint16) = NOT (push_bit 4 (mask 3))"
    by (simp add: mask_eq_exp_minus_1)
  finally show ?thesis .
qed

lemma unpack_pack_unpack:
  "unpack_flags (ToBit (unpack_flags v)) = (unpack_flags v)\<lparr>Z := 0\<rparr>"
proof -
  let ?w = "v AND NOT (push_bit 4 (mask 3))"
  have "drop_bit 15 ?w = drop_bit 15 v"
    by (rule top_without_slice) simp
  moreover have "drop_bit 11 ?w AND mask 4 = drop_bit 11 v AND mask 4"
    by (rule field_without_slice) simp
  moreover have "drop_bit 10 ?w AND mask 1 = drop_bit 10 v AND mask 1"
    by (rule field_without_slice) simp
  moreover have "drop_bit 9 ?w AND mask 1 = drop_bit 9 v AND mask 1"
    by (rule field_without_slice) simp
  moreover have "drop_bit 8 ?w AND mask 1 = drop_bit 8 v AND mask 1"
    by (rule field_without_slice) simp
  moreover have "drop_bit 7 ?w AND mask 1 = drop_bit 7 v AND mask 1"
    by (rule field_without_slice) simp
  moreover have "drop_bit 4 ?w AND mask 3 = 0"
    by (rule slice_cleared)
  moreover have "drop_bit 0 ?w AND mask 4 = drop_bit 0 v AND mask 4"
    by (rule field_without_slice) simp
  ultimately have "unpack_flags ?w = (unpack_flags v)\<lparr>Z := 0\<rparr>"
    by (simp only: unpack_flags_masks DNSFlags.simps)
  then show ?thesis by (simp only: ToBit_unpack_flags)
qed

lemma ToBit_unpack_flags_num: "ToBit (unpack_flags v) = v AND 0xFF8F"
proof -
  have "(0xFF8F :: uint16) = NOT (push_bit 4 (mask 3))"
    by (simp add: mask_eq_exp_minus_1)
  then show ?thesis by (simp only: ToBit_unpack_flags)
qed

section \<open>Names: splitting, joining, writing and reading labels\<close>

declare read_segments.simps [simp del]

lemma char_of_byte_of_char: "char_of_byte (byte_of_char c) = c"
proof -
  have "(of_char c :: nat) < 256" by (rule nat_of_char_less_256)
  then have "unat (of_nat (of_char c) :: byte) = of_char c"
    by (simp add: unat_of_nat take_bit_nat_eq_self)
  then show ?thesis by (simp add: char_of_byte_def byte_of_char_def)
qed

lemma string_of_bytes_of_string: "string_of_bytes (bytes_of_string s) = s"
  by (induction s) (simp_all add: string_of_bytes_def bytes_of_string_def char_of_byte_of_char)

lemma length_bytes_of_string: "length (bytes_of_string s) = length s"
  by (simp add: bytes_of_string_def)

lemma strings_Split_not_Nil: "strings_Split s \<noteq> []"
  by (induction s) (auto split: list.splits)

lemma strings_Join_Cons:
  "segs \<noteq> [] \<Longrightarrow> strings_Join (seg # segs) = seg @ CHR ''.'' # strings_Join segs"
  by (cases segs) simp_all

lemma strings_Join_Split: "strings_Join (strings_Split s) = s"
proof (induction s)
  case Nil
  show ?case by simp
next
  case (Cons c cs)
  obtain seg segs where sp: "strings_Split cs = seg # segs"
    using strings_Split_not_Nil [of cs] by (cases "strings_Split cs") auto
  show ?case
  proof (cases "c = CHR ''.''")
    case True
    then show ?thesis using Cons sp by (simp add: strings_Join_Cons)
  next
    case False
    then show ?thesis using Cons sp by (cases segs) auto
  qed
qed

lemma strings_Split_no_dot: "CHR ''.'' \<notin> set l \<Longrightarrow> strings_Split l = [l]"
  by (induction l) auto

lemma strings_Split_append_dot:
  "CHR ''.'' \<notin> set l \<Longrightarrow> strings_Split (l @ CHR ''.'' # s) = l # strings_Split s"
  by (induction l) auto

lemma strings_Split_Join:
  assumes "labels \<noteq> []" "\<forall>l \<in> set labels. CHR ''.'' \<notin> set l"
  shows "strings_Split (strings_Join labels) = labels"
  using assms
proof (induction labels)
  case Nil
  then show ?case by simp
next
  case (Cons l ls)
  show ?case
  proof (cases ls)
    case Nil
    then show ?thesis using Cons.prems by (simp add: strings_Split_no_dot)
  next
    case (Cons l' ls')
    then have "strings_Join (l # ls) = l @ CHR ''.'' # strings_Join ls"
      by simp
    moreover have "strings_Split (strings_Join ls) = ls"
      using Cons.IH Cons.prems Cons by simp
    ultimately show ?thesis using Cons.prems by (simp add: strings_Split_append_dot)
  qed
qed

lemma length_write_segments:
  "length (write_segments segs) = sum_list (map length segs) + length segs"
  by (induction segs) (simp_all add: length_bytes_of_string)

lemma length_Split:
  "sum_list (map length (strings_Split s)) + length (strings_Split s) = Suc (length s)"
proof (induction s)
  case Nil
  show ?case by simp
next
  case (Cons c cs)
  obtain seg segs where sp: "strings_Split cs = seg # segs"
    using strings_Split_not_Nil [of cs] by (cases "strings_Split cs") auto
  then show ?case using Cons by auto
qed

lemma length_write_name: "length (write_name name) = length name + 2"
  by (simp add: write_name_def length_write_segments length_Split)

lemma byte_of_length:
  assumes "length (seg :: string) < 256"
  shows "unat (of_nat (length seg) :: byte) = length seg"
  using assms by (simp add: unat_of_nat take_bit_nat_eq_self)

lemma read_segments_write_segments:
  assumes "\<forall>s \<in> set (seg # segs). 0 < length s \<and> length s < 256"
    and "unread b = bytes_of_string seg @ write_segments segs @ 0 # rest"
  shows "\<exists>b'. read_segments b (of_nat (length seg)) acc = Inr (acc @ seg # segs, b')
              \<and> unread b' = rest"
  using assms
proof (induction segs arbitrary: seg b acc)
  case Nil
  let ?n = "length seg"
  have n: "0 < ?n" "?n < 256" using Nil.prems(1) by auto
  have un: "unat (of_nat ?n :: byte) = ?n" using n by (simp add: byte_of_length)
  then have pos: "(of_nat ?n :: byte) > 0" using n by (simp add: word_greater_zero_iff unat_eq_zero [symmetric])
  obtain b1 where b1: "ReadFull b ?n = Inr (take ?n (unread b), b1)" "unread b1 = drop ?n (unread b)"
    using ReadFull_ok [of ?n b] n Nil.prems(2) by (auto simp: length_bytes_of_string)
  have tk: "take ?n (unread b) = bytes_of_string seg" and dr: "unread b1 = 0 # rest"
    using Nil.prems(2) b1 by (simp_all add: length_bytes_of_string)
  obtain b2 where b2: "binary_Read_uint8 b1 = Inr (0, b2)" "unread b2 = rest"
    using binary_Read_uint8_ok [OF dr] by blast
  have "read_segments b (of_nat ?n) acc = read_segments b2 0 (acc @ [seg])"
    using pos un b1 tk b2
    by (subst read_segments.simps) (simp add: binary_Read_bytes_def string_of_bytes_of_string)
  also have "\<dots> = Inr (acc @ [seg], b2)"
    by (subst read_segments.simps) simp
  finally show ?case using b2 by simp
next
  case (Cons s' segs')
  let ?n = "length seg"
  have n: "0 < ?n" "?n < 256" using Cons.prems(1) by auto
  have un: "unat (of_nat ?n :: byte) = ?n" using n by (simp add: byte_of_length)
  then have pos: "(of_nat ?n :: byte) > 0" using n by (simp add: word_greater_zero_iff unat_eq_zero [symmetric])
  obtain b1 where b1: "ReadFull b ?n = Inr (take ?n (unread b), b1)" "unread b1 = drop ?n (unread b)"
    using ReadFull_ok [of ?n b] n Cons.prems(2) by (auto simp: length_bytes_of_string)
  have tk: "take ?n (unread b) = bytes_of_string seg"
    and dr: "unread b1 = of_nat (length s') # (bytes_of_string s' @ write_segments segs' @ 0 # rest)"
    using Cons.prems(2) b1 by (simp_all add: length_bytes_of_string)
  obtain b2 where b2: "binary_Read_uint8 b1 = Inr (of_nat (length s'), b2)"
      "unread b2 = bytes_of_string s' @ write_segments segs' @ 0 # rest"
    using binary_Read_uint8_ok [OF dr] by blast
  have "read_segments b (of_nat ?n) acc = read_segments b2 (of_nat (length s')) (acc @ [seg])"
    using pos un b1 tk b2
    by (subst read_segments.simps) (simp add: binary_Read_bytes_def string_of_bytes_of_string)
  moreover obtain b' where "read_segments b2 (of_nat (length s')) (acc @ [seg])
        = Inr ((acc @ [seg]) @ s' # segs', b')" "unread b' = rest"
    using Cons.IH [of s' b2 "acc @ [seg]"] Cons.prems(1) b2(2) by auto
  ultimately show ?case by simp
qed

lemma NewDNSQuestion_write_name:
  assumes "\<forall>s \<in> set (strings_Split name). 0 < length s \<and> length s < 256"
    and "unread b = write_name name @ PutUint16 t @ PutUint16 c @ rest"
  shows "\<exists>b'. NewDNSQuestion b
               = Inr (\<lparr>QuestionName = name, QuestionType = t, QuestionClass = c\<rparr>, b')
              \<and> unread b' = rest"
proof -
  obtain seg segs where sp: "strings_Split name = seg # segs"
    using strings_Split_not_Nil [of name] by (cases "strings_Split name") auto
  have u0: "unread b = of_nat (length seg)
        # (bytes_of_string seg @ write_segments segs @ 0 # (PutUint16 t @ PutUint16 c @ rest))"
    using assms(2) sp by (simp add: write_name_def)
  obtain b1 where b1: "binary_Read_uint8 b = Inr (of_nat (length seg), b1)"
      "unread b1 = bytes_of_string seg @ write_segments segs @ 0 # (PutUint16 t @ PutUint16 c @ rest)"
    using binary_Read_uint8_ok [OF u0] by blast
  obtain b2 where b2: "read_segments b1 (of_nat (length seg)) [] = Inr ([] @ seg # segs, b2)"
      "unread b2 = PutUint16 t @ PutUint16 c @ rest"
    using read_segments_write_segments [of seg segs b1 _ "[]"] assms(1) sp b1(2) by metis
  obtain b3 where b3: "Next_Uint16 b2 = Inr (t, b3)" "unread b3 = PutUint16 c @ rest"
    using Next_Uint16_Put [OF b2(2)] by blast
  obtain b4 where b4: "Next_Uint16 b3 = Inr (c, b4)" "unread b4 = rest"
    using Next_Uint16_Put [OF b3(2)] by blast
  have "strings_Join (seg # segs) = name"
    using strings_Join_Split [of name] sp by simp
  then have "NewDNSQuestion b = Inr (\<lparr>QuestionName = name, QuestionType = t, QuestionClass = c\<rparr>, b4)"
    using b1 b2 b3 b4 by (simp add: NewDNSQuestion_def)
  then show ?thesis using b4 by blast
qed

section \<open>Addresses: parsing and printing dotted quads\<close>

lemma length_To4: "length (To4 ip) = 0 \<or> length (To4 ip) = 4"
  by (simp add: To4_def)

lemma To4_v4InV6: "length ip4 = 4 \<Longrightarrow> To4 (v4InV6Prefix @ ip4) = ip4"
  by (simp add: To4_def v4InV6Prefix_def nth_append)

lemma ParseIP_scan_no_colon:
  assumes "CHR '':'' \<notin> set t"
  shows "ParseIP_scan parseIPv6 s t =
           (if CHR ''.'' \<in> set t
            then (case parseIPv4 s of None \<Rightarrow> [] | Some ip4 \<Rightarrow> v4InV6Prefix @ ip4) else [])"
  using assms by (induction t) auto

lemma digits_of_Split:
  assumes "list_all (list_all isDigit) (strings_Split s)"
  shows "\<forall>c \<in> set s. c = CHR ''.'' \<or> isDigit c"
  using assms
proof (induction s)
  case Nil
  show ?case by simp
next
  case (Cons c cs)
  obtain seg segs where sp: "strings_Split cs = seg # segs"
    using strings_Split_not_Nil [of cs] by (cases "strings_Split cs") auto
  show ?case using Cons sp by (auto split: if_splits)
qed

lemma isDigit_not_colon: "isDigit c \<Longrightarrow> c \<noteq> CHR '':''"
  by (auto simp: isDigit_def)

lemma validField_digits: "validField f \<Longrightarrow> list_all isDigit f"
  by (simp add: validField_def)

lemma parseIPv4_Some:
  assumes "parseIPv4 s = Some ip4"
  shows "length (strings_Split s) = 4" and "list_all validField (strings_Split s)"
    and "ip4 = map (\<lambda>f. of_nat (dtoi 0 f)) (strings_Split s)"
  using assms unfolding parseIPv4_def Let_def by (simp_all split: if_splits)

lemma Split_fields_digits:
  assumes "list_all validField (strings_Split s)"
  shows "\<forall>c \<in> set s. c = CHR ''.'' \<or> isDigit c"
proof -
  have "list_all (list_all isDigit) (strings_Split s)"
    using assms by (induction "strings_Split s") (simp_all add: list_all_iff validField_def)
  then show ?thesis by (rule digits_of_Split)
qed

lemma dot_of_Split:
  assumes "length (strings_Split s) = 4"
  shows "CHR ''.'' \<in> set s"
proof (rule ccontr)
  assume "CHR ''.'' \<notin> set s"
  then have "strings_Split s = [s]" by (rule strings_Split_no_dot)
  then have "length (strings_Split s) = length [s]" by (rule arg_cong)
  with assms show False by simp
qed

lemma parseIPv4_no_colon:
  assumes "parseIPv4 s = Some ip4"
  shows "CHR '':'' \<notin> set s"
proof
  assume c: "CHR '':'' \<in> set s"
  have v: "list_all validField (strings_Split s)"
    using assms by (rule parseIPv4_Some(2))
  have d: "\<forall>c \<in> set s. c = CHR ''.'' \<or> isDigit c"
    using v by (rule Split_fields_digits)
  from d c have "CHR '':'' = CHR ''.'' \<or> isDigit CHR '':''" by (rule bspec)
  then show False by (simp add: isDigit_def)
qed

lemma parseIPv4_dot:
  assumes "parseIPv4 s = Some ip4"
  shows "CHR ''.'' \<in> set s"
  using parseIPv4_Some(1) [OF assms] by (rule dot_of_Split)

lemma parseIPv4_length: "parseIPv4 s = Some ip4 \<Longrightarrow> length ip4 = 4"
  using parseIPv4_Some [of s ip4] by simp

lemma ParseIP_parseIPv4:
  assumes "parseIPv4 s = Some ip4"
  shows "ParseIP parseIPv6 s = v4InV6Prefix @ ip4"
  using assms parseIPv4_no_colon [OF assms] parseIPv4_dot [OF assms]
  by (simp add: ParseIP_def ParseIP_scan_no_colon)

lemma To4_ParseIP_parseIPv4:
  assumes "parseIPv4 s = Some ip4"
  shows "To4 (ParseIP parseIPv6 s) = ip4"
  using assms by (simp add: ParseIP_parseIPv4 To4_v4InV6 parseIPv4_length)

lemma To4_ParseIP_not_address:
  assumes "parseIPv4 s = None" "CHR '':'' \<notin> set s"
  shows "To4 (ParseIP parseIPv6 s) = []"
  using assms by (simp add: ParseIP_def ParseIP_scan_no_colon To4_def)















section \<open>Reading the parts of a resource record\<close>

lemma clear_tag:
  fixes v :: uint16
  shows "drop_bit 2 (push_bit 2 v) = v AND mask 14"
  by (rule bit_word_eqI) (auto simp: bit_simps)

lemma read_NamePos_pointer:
  assumes "unread b = x # y # rest"
  shows "\<exists>b'. read_NamePos 3 b = Inr ((ucast y OR push_bit 8 (ucast x)) AND mask 14, b')
              \<and> unread b' = rest"
proof -
  obtain b' where "Next_Uint16 b = Inr (ucast y OR push_bit 8 (ucast x), b')" "unread b' = rest"
    using Next_Uint16_ok [OF assms] by blast
  then show ?thesis by (simp add: read_NamePos_def clear_tag)
qed

lemma tag_of_first_byte:
  fixes x :: byte
  assumes "0xC0 \<le> x"
  shows "drop_bit 6 x = 3"
proof -
  have "192 \<le> unat x" using assms by (simp add: word_le_nat_alt)
  moreover have "unat x < 256" using unsigned_less [of x, where ?'a = nat] by simp
  ultimately have "unat x div 64 = 3" by arith
  then have "unat (drop_bit 6 x) = unat (3 :: byte)" by (simp add: unat_drop_bit_eq drop_bit_eq_div unat_div)
  then show ?thesis by (rule word_unat_eq_iff [THEN iffD2])
qed

lemma Next_Uint16_len:
  assumes "2 \<le> length (unread b)"
  shows "\<exists>v b'. Next_Uint16 b = Inr (v, b') \<and> unread b' = drop 2 (unread b)"
proof -
  obtain x y rest where "unread b = x # y # rest"
    using assms by (cases "unread b"; cases "tl (unread b)") auto
  then show ?thesis using Next_Uint16_ok [of b x y rest] by auto
qed

lemma Next_Uint32_len:
  assumes "4 \<le> length (unread b)"
  shows "\<exists>v b'. Next_Uint32 b = Inr (v, b') \<and> unread b' = drop 4 (unread b)"
  using assms Next_fst [of b 4] Next_snd [of b 4]
  by (auto simp: Next_Uint32_def Uint32_def split: prod.splits)

lemma read_RData_A:
  assumes "RRType r = 1" "RDLength r = 4" "unread b = a1 # a2 # a3 # a4 # rest"
  shows "\<exists>b'. read_RData r b = Inr (r\<lparr>RData := IPv4_String a1 a2 a3 a4\<rparr>, b')
              \<and> unread b' = rest"
proof -
  obtain b1 where b1: "Next_byte b = Inr (a1, b1)" "unread b1 = a2 # a3 # a4 # rest"
    using Next_byte_ok [OF assms(3)] by blast
  obtain b2 where b2: "Next_byte b1 = Inr (a2, b2)" "unread b2 = a3 # a4 # rest"
    using Next_byte_ok [OF b1(2)] by blast
  obtain b3 where b3: "Next_byte b2 = Inr (a3, b3)" "unread b3 = a4 # rest"
    using Next_byte_ok [OF b2(2)] by blast
  obtain b4 where b4: "Next_byte b3 = Inr (a4, b4)" "unread b4 = rest"
    using Next_byte_ok [OF b3(2)] by blast
  show ?thesis using assms(1,2) b1 b2 b3 b4 by (simp add: read_RData_def)
qed

lemma read_RData_ok:
  assumes "4 \<le> length (unread b)"
  shows "\<exists>r' b'. read_RData r b = Inr (r', b') \<and> Name r' = Name r \<and> NamePos r' = NamePos r"
proof (cases "RRType r = 1 \<and> RDLength r = 4")
  case True
  obtain a1 a2 a3 a4 rest where "unread b = a1 # a2 # a3 # a4 # rest"
    using assms
    by (cases "unread b"; cases "tl (unread b)"; cases "tl (tl (unread b))";
        cases "tl (tl (tl (unread b)))") auto
  then show ?thesis using read_RData_A [of r b a1 a2 a3 a4 rest] True by auto
next
  case False
  then have "read_RData r b = Inr (r, snd (Next b (unat (RDLength r))))"
    by (auto simp: read_RData_def)
  then show ?thesis by simp
qed

lemma NewDNSResourceRecode_pointer_parts:
  assumes tag: "drop_bit 6 x = (3 :: byte)"
    and un: "unread b = x # y # tail"
  shows "\<exists>b0 b1 b2. Next_byte b = Inr (x, b0) \<and> UnreadByte b0 = Inr b1
            \<and> read_NamePos (drop_bit 6 x) b1
                = Inr ((ucast y OR push_bit 8 (ucast x)) AND mask 14, b2)
            \<and> unread b2 = tail"
proof -
  obtain b0 b1 where b01: "Next_byte b = Inr (x, b0)" "UnreadByte b0 = Inr b1"
      "unread b1 = x # y # tail"
    using Next_byte_UnreadByte [OF un] by blast
  obtain b2 where "read_NamePos 3 b1 = Inr ((ucast y OR push_bit 8 (ucast x)) AND mask 14, b2)"
      "unread b2 = tail"
    using read_NamePos_pointer [OF b01(3)] by blast
  then show ?thesis using b01 tag by auto
qed


lemma NewDNSResourceRecode_pointer_ok:
  assumes tag: "drop_bit 6 x = (3 :: byte)"
    and un: "unread b = x # y # tail"
    and len: "14 \<le> length tail"
  shows "\<exists>r b'. NewDNSResourceRecode b = Inr (r, b') \<and> Name r = []
             \<and> NamePos r = (ucast y OR push_bit 8 (ucast x)) AND mask 14"
proof -
  obtain b0 b1 b2 where p: "Next_byte b = Inr (x, b0)" "UnreadByte b0 = Inr b1"
      "read_NamePos (drop_bit 6 x) b1 = Inr ((ucast y OR push_bit 8 (ucast x)) AND mask 14, b2)"
      "unread b2 = tail"
    using NewDNSResourceRecode_pointer_parts [OF tag un] by blast
  have "2 \<le> length (unread b2)" using p(4) len by simp
  then obtain t b3 where b3: "Next_Uint16 b2 = Inr (t, b3)" "unread b3 = drop 2 (unread b2)"
    using Next_Uint16_len by blast
  have "2 \<le> length (unread b3)" using b3(2) p(4) len by simp
  then obtain c b4 where b4: "Next_Uint16 b3 = Inr (c, b4)" "unread b4 = drop 2 (unread b3)"
    using Next_Uint16_len by blast
  have "4 \<le> length (unread b4)" using b4(2) b3(2) p(4) len by simp
  then obtain ttl b5 where b5: "Next_Uint32 b4 = Inr (ttl, b5)" "unread b5 = drop 4 (unread b4)"
    using Next_Uint32_len by blast
  have "2 \<le> length (unread b5)" using b5(2) b4(2) b3(2) p(4) len by simp
  then obtain n b6 where b6: "Next_Uint16 b5 = Inr (n, b6)" "unread b6 = drop 2 (unread b5)"
    using Next_Uint16_len by blast
  have "4 \<le> length (unread b6)" using b6(2) b5(2) b4(2) b3(2) p(4) len by simp
  then obtain r' b' where r': "read_RData \<lparr>Name = [],
        NamePos = (ucast y OR push_bit 8 (ucast x)) AND mask 14,
        RRType = t, Class = c, TTL = ttl, RDLength = n, RData = []\<rparr> b6 = Inr (r', b')"
      "Name r' = []" "NamePos r' = (ucast y OR push_bit 8 (ucast x)) AND mask 14"
    using read_RData_ok [of b6 "\<lparr>Name = [],
        NamePos = (ucast y OR push_bit 8 (ucast x)) AND mask 14,
        RRType = t, Class = c, TTL = ttl, RDLength = n, RData = []\<rparr>"] by auto
  have "NewDNSResourceRecode b = Inr (r', b')"
    using p(1,2,3) b3(1) b4(1) b5(1) b6(1) r'(1) by (simp add: NewDNSResourceRecode_def)
  then show ?thesis using r'(2,3) by blast
qed








lemma ToByte_pointer:
  assumes "0 < NamePos r" "Class r = DNSClassIn"
  shows "DNSResourceRecode_ToByte parseIPv6 r =
     Inr (PutUint16 (push_bit 15 1 OR push_bit 14 1 OR NamePos r) @ PutUint16 (RRType r)
          @ PutUint16 (Class r) @ PutUint32 (TTL r) @ PutUint16 (RDLength r)
          @ To4 (ParseIP parseIPv6 (RData r)))"
proof -
  have "\<not> NamePos r \<le> 0" using assms(1) by (simp add: not_le)
  then show ?thesis using assms by (simp add: DNSResourceRecode_ToByte_def Let_def)
qed

lemma ToByte_inline:
  assumes "NamePos r = 0" "Class r = DNSClassIn"
  shows "DNSResourceRecode_ToByte parseIPv6 r =
     Inr (write_name (Name r) @ PutUint16 (RRType r)
          @ PutUint16 (Class r) @ PutUint32 (TTL r) @ PutUint16 (RDLength r)
          @ To4 (ParseIP parseIPv6 (RData r)))"
  using assms by (simp add: DNSResourceRecode_ToByte_def Let_def)

section \<open>The query message\<close>

text \<open>
  Claim C2. The message \<open>LookUp\<close> builds for the host \<open>example.com\<close> (type A, class IN,
  \<open>TxID = 1\<close>, \<open>RD = 1\<close>, one question) is serialised by \<open>DNSMessage.ToByte\<close> to exactly
  the header bytes \<open>00 01 01 00 00 01 00 00 00 00 00 00\<close>, then \<open>07 example 03 com 00\<close>,
  then \<open>00 01 00 01\<close>.
\<close>

theorem LookUp_example_com_bytes:
  "DNSMessage_ToByte parseIPv6 (LookUp_msg ''example.com'') =
     Inr [0x00, 0x01, 0x01, 0x00, 0x00, 0x01, 0x00, 0x00, 0x00, 0x00, 0x00, 0x00,
          0x07, 0x65, 0x78, 0x61, 0x6d, 0x70, 0x6c, 0x65, 0x03, 0x63, 0x6f, 0x6d, 0x00,
          0x00, 0x01, 0x00, 0x01]"
  by (simp add: DNSMessage_ToByte_def LookUp_msg_def DNSHeader_ToByte_def ToBit_def PutUint16_def
        DNSQuestion_ToByte_def write_name_def DNSTypeA_def DNSClassIn_def
        bytes_of_string_def byte_of_char_def)

section \<open>Packing and unpacking the flags\<close>

text \<open>
  Claim C3, as amended. For every 16-bit value \<open>v\<close>, with \<open>f\<close> the flags that
  \<open>NewDNSHeader\<close> extracts from \<open>v\<close> and \<open>w = f.ToBit()\<close>: extracting the flags of \<open>w\<close>
  reproduces \<open>QR\<close>, \<open>OpCode\<close>, \<open>AA\<close>, \<open>TC\<close>, \<open>RD\<close>, \<open>RA\<close> and \<open>RCode\<close> of \<open>f\<close>,
  while \<open>Z\<close> is always 0, because \<open>ToBit\<close> does not write \<open>Z\<close>: \<open>w\<close> is \<open>v\<close> with the
  bits 4 to 6 cleared.
\<close>

theorem flags_reextracted_except_Z:
  "QR (unpack_flags (ToBit (unpack_flags v))) = QR (unpack_flags v)
   \<and> OpCode (unpack_flags (ToBit (unpack_flags v))) = OpCode (unpack_flags v)
   \<and> AA (unpack_flags (ToBit (unpack_flags v))) = AA (unpack_flags v)
   \<and> TC (unpack_flags (ToBit (unpack_flags v))) = TC (unpack_flags v)
   \<and> RD (unpack_flags (ToBit (unpack_flags v))) = RD (unpack_flags v)
   \<and> RA (unpack_flags (ToBit (unpack_flags v))) = RA (unpack_flags v)
   \<and> RCode (unpack_flags (ToBit (unpack_flags v))) = RCode (unpack_flags v)
   \<and> Z (unpack_flags (ToBit (unpack_flags v))) = 0
   \<and> ToBit (unpack_flags v) = v AND 0xFF8F"
proof -
  have e: "unpack_flags (ToBit (unpack_flags v)) = (unpack_flags v)\<lparr>Z := 0\<rparr>"
    by (rule unpack_pack_unpack)
  have w: "ToBit (unpack_flags v) = v AND 0xFF8F"
    by (rule ToBit_unpack_flags_num)
  show ?thesis unfolding e using w by simp
qed

text \<open>
  Claim C3 as stated fails for \<open>Z\<close>: the flag word \<open>0x0010\<close> has \<open>Z = 1\<close>, and after
  packing and extracting again \<open>Z = 0\<close>.
\<close>

theorem flags_Z_not_reproduced:
  "Z (unpack_flags 0x0010) = 1 \<and> Z (unpack_flags (ToBit (unpack_flags 0x0010))) = 0"
  by (simp add: ToBit_def unpack_flags_def)

section \<open>Encoding and decoding names\<close>

text \<open>
  Claim C4. For every name that is the dot-join of labels that are each 1 to 63 bytes long
  (a label holds no dot), the bytes \<open>DNSQuestion.ToByte\<close> writes for the name are read back by
  \<open>NewDNSQuestion\<close> as the same name; type and class come back too and nothing is left
  unread.
\<close>

theorem name_round_trip:
  assumes "labels \<noteq> []"
    and "\<forall>l \<in> set labels. 1 \<le> length l \<and> length l \<le> 63 \<and> CHR ''.'' \<notin> set l"
  shows "\<exists>bs b'. DNSQuestion_ToByte
                    \<lparr>QuestionName = strings_Join labels, QuestionType = t, QuestionClass = c\<rparr>
                  = Inr bs
               \<and> NewDNSQuestion (NewBuffer bs)
                  = Inr (\<lparr>QuestionName = strings_Join labels, QuestionType = t,
                           QuestionClass = c\<rparr>, b')
               \<and> unread b' = []"
proof -
  define name where "name = strings_Join labels"
  have nodot: "\<forall>l \<in> set labels. CHR ''.'' \<notin> set l"
    using assms(2) by blast
  have sp: "strings_Split name = labels"
    unfolding name_def using assms(1) nodot by (rule strings_Split_Join)
  have len: "\<forall>s \<in> set (strings_Split name). 0 < length s \<and> length s < 256"
  proof
    fix s assume "s \<in> set (strings_Split name)"
    then have "s \<in> set labels" by (simp only: sp)
    with assms(2) have "1 \<le> length s \<and> length s \<le> 63" by blast
    then show "0 < length s \<and> length s < 256" by arith
  qed
  define bs where "bs = write_name name @ PutUint16 t @ PutUint16 c"
  have un: "unread (NewBuffer bs) = write_name name @ PutUint16 t @ PutUint16 c @ []"
    by (simp add: unread_NewBuffer bs_def)
  obtain b' where dec:
    "NewDNSQuestion (NewBuffer bs)
       = Inr (\<lparr>QuestionName = name, QuestionType = t, QuestionClass = c\<rparr>, b')"
    "unread b' = []"
    using NewDNSQuestion_write_name [OF len un] by blast
  have enc: "DNSQuestion_ToByte \<lparr>QuestionName = name, QuestionType = t, QuestionClass = c\<rparr>
             = Inr bs"
    by (simp add: DNSQuestion_ToByte_def bs_def)
  from enc dec show ?thesis unfolding name_def by blast
qed

text \<open>The round trip at the name \<open>example.com\<close>, whose labels have 7 and 3 bytes.\<close>

theorem name_round_trip_witness:
  "[''example'', ''com''] \<noteq> []
   \<and> list_all (\<lambda>l. 1 \<le> length l \<and> length l \<le> 63 \<and> CHR ''.'' \<notin> set l) [''example'', ''com'']
   \<and> strings_Join [''example'', ''com''] = ''example.com''
   \<and> (\<exists>bs b'. DNSQuestion_ToByte
                    \<lparr>QuestionName = ''example.com'', QuestionType = 1, QuestionClass = 1\<rparr>
                  = Inr bs
               \<and> NewDNSQuestion (NewBuffer bs)
                  = Inr (\<lparr>QuestionName = ''example.com'', QuestionType = 1,
                           QuestionClass = 1\<rparr>, b')
               \<and> unread b' = [])"
  using name_round_trip [of "[''example'', ''com'']" 1 1]
  by simp

text \<open>
  Claim C9 says that only the non-empty labels of a name are emitted and that the empty name
  is encoded as one zero byte. The code emits every segment of \<open>strings.Split(name, \".\")\<close>:
  the empty name is encoded as \<open>00 00\<close> before the type and the class, and the name
  \<open>example.com.\<close> with its trailing dot as \<open>07 example 03 com 00 00\<close>. The decoder of the
  same package stops at the first zero byte, so it reads the question written for
  \<open>example.com.\<close>, type 1 and class 1, as the name \<open>example.com\<close> with type 0 and class
  256, and leaves one byte unread.
\<close>

theorem empty_labels_emitted:
  "DNSQuestion_ToByte \<lparr>QuestionName = [], QuestionType = 1, QuestionClass = 1\<rparr>
     = Inr [0x00, 0x00, 0x00, 0x01, 0x00, 0x01]
   \<and> DNSQuestion_ToByte
         \<lparr>QuestionName = ''example.com.'', QuestionType = 1, QuestionClass = 1\<rparr>
     = Inr [0x07, 0x65, 0x78, 0x61, 0x6d, 0x70, 0x6c, 0x65, 0x03, 0x63, 0x6f, 0x6d, 0x00, 0x00,
            0x00, 0x01, 0x00, 0x01]
   \<and> map_sum id (apsnd unread)
         (NewDNSQuestion (NewBuffer
            [0x07, 0x65, 0x78, 0x61, 0x6d, 0x70, 0x6c, 0x65, 0x03, 0x63, 0x6f, 0x6d, 0x00, 0x00,
             0x00, 0x01, 0x00, 0x01]))
     = Inr (\<lparr>QuestionName = ''example.com'', QuestionType = 0, QuestionClass = 256\<rparr>,
            [0x01])"
  by code_simp

section \<open>Encoding resource records\<close>

text \<open>
  Claim C6. For every resource record whose class is not IN (1),
  \<open>DNSResourceRecode.ToByte\<close> returns the error \<open>ErrClassNotSupport\<close>, and with it no bytes.
\<close>

theorem ToByte_class_not_supported:
  "Class r \<noteq> DNSClassIn \<Longrightarrow>
     DNSResourceRecode_ToByte parseIPv6 r = Inl (Returned ErrClassNotSupport)"
  by (simp add: DNSResourceRecode_ToByte_def Let_def)

text \<open>A record of class 3 (CHAOS) is refused.\<close>

theorem ToByte_class_not_supported_witness:
  "Class \<lparr>Name = [], NamePos = 12, RRType = 1, Class = 3, TTL = 60, RDLength = 4,
          RData = ''1.2.3.4''\<rparr> \<noteq> DNSClassIn
   \<and> DNSResourceRecode_ToByte (\<lambda>_. [])
         \<lparr>Name = [], NamePos = 12, RRType = 1, Class = 3, TTL = 60, RDLength = 4,
          RData = ''1.2.3.4''\<rparr> = Inl (Returned ErrClassNotSupport)"
  using ToByte_class_not_supported
    [of "\<lparr>Name = [], NamePos = 12, RRType = 1, Class = 3, TTL = 60, RDLength = 4,
          RData = ''1.2.3.4''\<rparr>" "\<lambda>_. []"]
  by (simp add: DNSClassIn_def)

text \<open>
  Claim C10. A record of class IN is always encoded: after the name or the pointer, the type,
  the class and the TTL come the two bytes of \<open>RDLength\<close> as the record holds it, and then
  the bytes of \<open>net.ParseIP(RData).To4()\<close>, which are 4 bytes or none: the four address bytes
  when \<open>RData\<close> is a dotted quad, and none when it is not and has no colon (a text with a
  colon goes to the IPv6 parser). \<open>RDLength\<close> is not compared with what is written: whenever
  it is neither 0 nor 4 it differs from the number of RDATA bytes.
\<close>

theorem RDLength_written_unchecked:
  assumes "Class r = DNSClassIn"
  shows "DNSResourceRecode_ToByte parseIPv6 r =
           Inr ((if 0 < NamePos r then PutUint16 (0xC000 OR NamePos r) else write_name (Name r))
                @ PutUint16 (RRType r) @ PutUint16 (Class r) @ PutUint32 (TTL r)
                @ [ucast (drop_bit 8 (RDLength r)), ucast (RDLength r)]
                @ To4 (ParseIP parseIPv6 (RData r)))
         \<and> (length (To4 (ParseIP parseIPv6 (RData r))) = 4
              \<or> length (To4 (ParseIP parseIPv6 (RData r))) = 0)
         \<and> (\<forall>ip. parseIPv4 (RData r) = Some ip \<longrightarrow>
                To4 (ParseIP parseIPv6 (RData r)) = ip \<and> length ip = 4)
         \<and> (parseIPv4 (RData r) = None \<and> CHR '':'' \<notin> set (RData r) \<longrightarrow>
                To4 (ParseIP parseIPv6 (RData r)) = [])
         \<and> (RDLength r \<noteq> 0 \<and> RDLength r \<noteq> 4 \<longrightarrow>
                unat (RDLength r) \<noteq> length (To4 (ParseIP parseIPv6 (RData r))))"
proof -
  have c: "(push_bit 15 1 OR push_bit 14 1 OR NamePos r) = (0xC000 OR NamePos r)"
    by (simp add: or.assoc [symmetric])
  have p: "PutUint16 (RDLength r) = [ucast (drop_bit 8 (RDLength r)), ucast (RDLength r)]"
    by (simp add: PutUint16_def)
  have enc: "DNSResourceRecode_ToByte parseIPv6 r =
           Inr ((if 0 < NamePos r then PutUint16 (0xC000 OR NamePos r) else write_name (Name r))
                @ PutUint16 (RRType r) @ PutUint16 (Class r) @ PutUint32 (TTL r)
                @ [ucast (drop_bit 8 (RDLength r)), ucast (RDLength r)]
                @ To4 (ParseIP parseIPv6 (RData r)))"
  proof (cases "0 < NamePos r")
    case True
    have e: "DNSResourceRecode_ToByte parseIPv6 r =
       Inr (PutUint16 (push_bit 15 1 OR push_bit 14 1 OR NamePos r) @ PutUint16 (RRType r)
            @ PutUint16 (Class r) @ PutUint32 (TTL r) @ PutUint16 (RDLength r)
            @ To4 (ParseIP parseIPv6 (RData r)))"
      using True assms by (rule ToByte_pointer)
    show ?thesis unfolding e c p by (simp only: True if_True)
  next
    case False
    then have z: "NamePos r = 0" by (simp add: word_greater_zero_iff)
    have e: "DNSResourceRecode_ToByte parseIPv6 r =
       Inr (write_name (Name r) @ PutUint16 (RRType r)
            @ PutUint16 (Class r) @ PutUint32 (TTL r) @ PutUint16 (RDLength r)
            @ To4 (ParseIP parseIPv6 (RData r)))"
      using z assms by (rule ToByte_inline)
    show ?thesis unfolding e p by (simp only: False if_False)
  qed
  have len: "length (To4 (ParseIP parseIPv6 (RData r))) = 4
              \<or> length (To4 (ParseIP parseIPv6 (RData r))) = 0"
    using length_To4 [of "ParseIP parseIPv6 (RData r)"] by blast
  have some: "\<forall>ip. parseIPv4 (RData r) = Some ip \<longrightarrow>
                To4 (ParseIP parseIPv6 (RData r)) = ip \<and> length ip = 4"
    using To4_ParseIP_parseIPv4 parseIPv4_length by blast
  have none: "parseIPv4 (RData r) = None \<and> CHR '':'' \<notin> set (RData r) \<longrightarrow>
                To4 (ParseIP parseIPv6 (RData r)) = []"
    using To4_ParseIP_not_address by blast
  have dis: "RDLength r \<noteq> 0 \<and> RDLength r \<noteq> 4 \<longrightarrow>
                unat (RDLength r) \<noteq> length (To4 (ParseIP parseIPv6 (RData r)))"
  proof
    assume n: "RDLength r \<noteq> 0 \<and> RDLength r \<noteq> 4"
    then have "unat (RDLength r) \<noteq> unat (0 :: uint16)" "unat (RDLength r) \<noteq> unat (4 :: uint16)"
      by (simp_all only: word_unat_eq_iff [symmetric] simp_thms)
    then have "unat (RDLength r) \<noteq> 0" "unat (RDLength r) \<noteq> 4" by simp_all
    then show "unat (RDLength r) \<noteq> length (To4 (ParseIP parseIPv6 (RData r)))"
      using len by presburger
  qed
  from enc len some none dis show ?thesis by (intro conjI)
qed

text \<open>
  Two records whose \<open>RDLength\<close> disagrees with what is written: length 4 with no RDATA bytes
  for \<open>10.0.0.300\<close>, which is not an address, and length 7 with the 4 bytes of \<open>10.0.0.30\<close>.
\<close>

theorem RDLength_written_unchecked_witness:
  "DNSResourceRecode_ToByte (\<lambda>_. [])
     \<lparr>Name = [], NamePos = 12, RRType = 1, Class = 1, TTL = 60, RDLength = 4,
      RData = ''10.0.0.300''\<rparr>
     = Inr [0xC0, 0x0C, 0x00, 0x01, 0x00, 0x01, 0x00, 0x00, 0x00, 0x3C, 0x00, 0x04]
   \<and> DNSResourceRecode_ToByte (\<lambda>_. [])
     \<lparr>Name = [], NamePos = 12, RRType = 1, Class = 1, TTL = 60, RDLength = 7,
      RData = ''10.0.0.30''\<rparr>
     = Inr [0xC0, 0x0C, 0x00, 0x01, 0x00, 0x01, 0x00, 0x00, 0x00, 0x3C, 0x00, 0x07,
            0x0A, 0x00, 0x00, 0x1E]"
proof -
  have 1: "parseIPv4 ''10.0.0.300'' = None" by code_simp
  have 2: "parseIPv4 ''10.0.0.30'' = Some [0x0A, 0x00, 0x00, 0x1E]" by code_simp
  have 3: "CHR '':'' \<notin> set ''10.0.0.300''" by simp
  show ?thesis
    using RDLength_written_unchecked
      [of "\<lparr>Name = [], NamePos = 12, RRType = 1, Class = 1, TTL = 60, RDLength = 4,
            RData = ''10.0.0.300''\<rparr>" "\<lambda>_. []"]
      RDLength_written_unchecked
      [of "\<lparr>Name = [], NamePos = 12, RRType = 1, Class = 1, TTL = 60, RDLength = 7,
            RData = ''10.0.0.30''\<rparr>" "\<lambda>_. []"]
      1 2 3
    by (simp add: DNSClassIn_def PutUint16_def PutUint32_def)
qed

text \<open>
  Claim C7 says that encoding a record of class IN fails when \<open>RData\<close> is not an IPv4
  address. The code returns no error there: for \<open>1.2.3.256\<close> and for \<open>localhost\<close> it
  returns the pointer and the fixed fields with \<open>RDLength = 4\<close> and no RDATA byte, and
  \<open>NewDNSResourceRecode\<close> panics on these twelve bytes, because it reads four address bytes
  that are not there.
\<close>

theorem unparseable_address_no_error:
  "DNSResourceRecode_ToByte (\<lambda>_. [])
     \<lparr>Name = [], NamePos = 12, RRType = 1, Class = 1, TTL = 60, RDLength = 4,
      RData = ''1.2.3.256''\<rparr>
     = Inr [0xC0, 0x0C, 0x00, 0x01, 0x00, 0x01, 0x00, 0x00, 0x00, 0x3C, 0x00, 0x04]
   \<and> DNSResourceRecode_ToByte (\<lambda>_. [])
     \<lparr>Name = [], NamePos = 12, RRType = 1, Class = 1, TTL = 60, RDLength = 4,
      RData = ''localhost''\<rparr>
     = Inr [0xC0, 0x0C, 0x00, 0x01, 0x00, 0x01, 0x00, 0x00, 0x00, 0x3C, 0x00, 0x04]
   \<and> NewDNSResourceRecode (NewBuffer
        [0xC0, 0x0C, 0x00, 0x01, 0x00, 0x01, 0x00, 0x00, 0x00, 0x3C, 0x00, 0x04]) = Inl Panic"
  by code_simp

section \<open>Decoding resource records\<close>




text \<open>
  Claim C8, as amended. For every two bytes \<open>x\<close>, \<open>y\<close> with \<open>x \<ge> 0xC0\<close> at the start of
  a resource record, \<open>NewDNSResourceRecode\<close> looks at \<open>x\<close>, puts it back, and reads exactly
  these two bytes as a pointer whose offset is the lower 14 bits of the big-endian value of
  \<open>x y\<close>; when at least 14 more bytes follow (the fixed fields and four bytes of RDATA), it
  returns a record with that offset as \<open>NamePos\<close> and with an empty \<open>Name\<close>.
\<close>

theorem pointer_recognised:
  assumes "0xC0 \<le> x"
    and "unread b = x # y # tail"
  shows "\<exists>b0 b1 b2.
           Next_byte b = Inr (x, b0) \<and> UnreadByte b0 = Inr b1
         \<and> read_NamePos (drop_bit 6 x) b1
             = Inr ((push_bit 8 (ucast x) OR ucast y) AND 0x3FFF, b2)
         \<and> unread b2 = tail
         \<and> (14 \<le> length tail \<longrightarrow>
              (\<exists>r b'. NewDNSResourceRecode b = Inr (r, b')
                   \<and> Name r = []
                   \<and> NamePos r = (push_bit 8 (ucast x) OR ucast y) AND 0x3FFF))"
proof -
  have tag: "drop_bit 6 x = 3" using assms(1) by (rule tag_of_first_byte)
  have m: "(mask 14 :: uint16) = 0x3FFF" by (simp add: mask_eq_exp_minus_1)
  have o: "(ucast y OR push_bit 8 (ucast x)) AND mask 14
           = (push_bit 8 (ucast x) OR ucast y) AND (0x3FFF :: uint16)"
    unfolding m by (simp only: or.commute)
  obtain b0 b1 b2 where p: "Next_byte b = Inr (x, b0)" "UnreadByte b0 = Inr b1"
      "read_NamePos (drop_bit 6 x) b1 = Inr ((ucast y OR push_bit 8 (ucast x)) AND mask 14, b2)"
      "unread b2 = tail"
    using NewDNSResourceRecode_pointer_parts [OF tag assms(2)] by blast
  have "\<exists>r b'. NewDNSResourceRecode b = Inr (r, b') \<and> Name r = []
             \<and> NamePos r = (ucast y OR push_bit 8 (ucast x)) AND mask 14"
    if "14 \<le> length tail"
    using tag assms(2) that by (rule NewDNSResourceRecode_pointer_ok)
  then show ?thesis using p unfolding o by blast
qed

text \<open>The pointer \<open>C1 2C\<close> in front of the fields of an A record: the offset is \<open>0x012C\<close>.\<close>

theorem pointer_recognised_witness:
  "\<exists>b0 b1 b2 r b'.
      Next_byte (NewBuffer [0xC1, 0x2C, 0x00, 0x01, 0x00, 0x01, 0x00, 0x00, 0x00, 0x3C, 0x00, 0x04,
                           0x01, 0x02, 0x03, 0x04]) = Inr (0xC1, b0)
    \<and> UnreadByte b0 = Inr b1
    \<and> read_NamePos 3 b1 = Inr (0x012C, b2)
    \<and> unread b2 = [0x00, 0x01, 0x00, 0x01, 0x00, 0x00, 0x00, 0x3C, 0x00, 0x04,
                    0x01, 0x02, 0x03, 0x04]
    \<and> NewDNSResourceRecode (NewBuffer [0xC1, 0x2C, 0x00, 0x01, 0x00, 0x01, 0x00, 0x00, 0x00, 0x3C,
                                       0x00, 0x04, 0x01, 0x02, 0x03, 0x04]) = Inr (r, b')
    \<and> Name r = []
    \<and> NamePos r = 0x012C"
proof -
  have 1: "(0xC0 :: byte) \<le> 0xC1" by simp
  have 2: "unread (NewBuffer [0xC1, 0x2C, 0x00, 0x01, 0x00, 0x01, 0x00, 0x00, 0x00, 0x3C, 0x00, 0x04,
                             0x01, 0x02, 0x03, 0x04])
           = 0xC1 # 0x2C # [0x00, 0x01, 0x00, 0x01, 0x00, 0x00, 0x00, 0x3C, 0x00, 0x04,
                            0x01, 0x02, 0x03, 0x04]"
    by (simp add: unread_NewBuffer)
  have 3: "14 \<le> length [0x00, 0x01, 0x00, 0x01, 0x00, 0x00, 0x00, 0x3C, 0x00, 0x04,
                          0x01, 0x02, 0x03, 0x04 :: byte]" by simp
  have 4: "(push_bit 8 (ucast (0xC1 :: byte)) OR ucast (0x2C :: byte)) AND 0x3FFF = (0x012C :: uint16)"
    by simp
  have 5: "drop_bit 6 (0xC1 :: byte) = 3" by (simp add: drop_bit_eq_div)
  show ?thesis using pointer_recognised [OF 1 2] 3 unfolding 4 5 by blast
qed

text \<open>
  Claim C8 as stated fails for the label-reading loop of \<open>NewDNSQuestion\<close>, which has no
  test for the pointer tag: it takes \<open>C0\<close> as the length 192 of a label and fails because
  fewer bytes follow.
\<close>

theorem question_pointer_read_as_label:
  "NewDNSQuestion (NewBuffer [0xC0, 0x0C, 0x00, 0x01, 0x00, 0x01])
     = Inl (Returned (WithMessage ErrUnexpectedEOF ''read seg''))"
  by code_simp

section \<open>Short input\<close>

text \<open>
  Claim C5 says that every strict prefix of an encoded header, question or record makes the
  decoder return a truncation failure. The label-reading loop of \<open>NewDNSQuestion\<close> does
  return the error of the failed read, but every fixed-width field is read with
  \<open>binary.BigEndian.Uint16(buffer.Next(2))\<close> and the like, which panic on a short slice:
  the header of the query for \<open>example.com\<close> without its last byte, the question for
  \<open>a.bc\<close> cut inside its type or class, and the A record cut inside its address or its
  fixed fields all end in a panic.
\<close>

theorem short_input_panics:
  "DNSHeader_ToByte (Header (LookUp_msg ''example.com''))
     = Inr [0x00, 0x01, 0x01, 0x00, 0x00, 0x01, 0x00, 0x00, 0x00, 0x00, 0x00, 0x00]
   \<and> NewDNSHeader (NewBuffer [0x00, 0x01, 0x01, 0x00, 0x00, 0x01, 0x00, 0x00, 0x00, 0x00, 0x00])
     = Inl Panic
   \<and> NewDNSHeader (NewBuffer []) = Inl Panic
   \<and> DNSQuestion_ToByte \<lparr>QuestionName = ''a.bc'', QuestionType = 1, QuestionClass = 1\<rparr>
     = Inr [0x01, 0x61, 0x02, 0x62, 0x63, 0x00, 0x00, 0x01, 0x00, 0x01]
   \<and> NewDNSQuestion (NewBuffer [0x01, 0x61, 0x02, 0x62, 0x63, 0x00, 0x00, 0x01, 0x00])
     = Inl Panic
   \<and> NewDNSQuestion (NewBuffer [0x01, 0x61, 0x02, 0x62, 0x63, 0x00])
     = Inl Panic
   \<and> NewDNSQuestion (NewBuffer [0x01, 0x61, 0x02, 0x62])
     = Inl (Returned (WithMessage ErrUnexpectedEOF ''read seg''))
   \<and> NewDNSQuestion (NewBuffer [0x01, 0x61, 0x02, 0x62, 0x63])
     = Inl (Returned (WithMessage EOF ''read length''))
   \<and> DNSResourceRecode_ToByte (\<lambda>_. [])
       \<lparr>Name = [], NamePos = 12, RRType = 1, Class = 1, TTL = 60, RDLength = 4,
        RData = ''1.2.3.4''\<rparr>
     = Inr [0xC0, 0x0C, 0x00, 0x01, 0x00, 0x01, 0x00, 0x00, 0x00, 0x3C, 0x00, 0x04,
            0x01, 0x02, 0x03, 0x04]
   \<and> NewDNSResourceRecode (NewBuffer
        [0xC0, 0x0C, 0x00, 0x01, 0x00, 0x01, 0x00, 0x00, 0x00, 0x3C, 0x00, 0x04,
         0x01, 0x02, 0x03]) = Inl Panic
   \<and> NewDNSResourceRecode (NewBuffer [0xC0, 0x0C, 0x00, 0x01, 0x00]) = Inl Panic
   \<and> NewDNSResourceRecode (NewBuffer []) = Inl Panic"
  by code_simp

end
